theory Spec2Isabelle
  imports Main
begin

section \<open>Strings\<close>

text \<open>
  A Python \<open>str\<close> is modelled as a \<open>string\<close>; a \<open>char\<close> stands for the code point of the
  same number, so the model covers the strings whose code points are below 256 (the output
  of \<open>ip route\<close> is ASCII).

  \<open>is_space\<close> is the character class shared by \<open>str.split()\<close>, \<open>str.strip()\<close> and the
  \<open>\s\<close> of \<open>re\<close> on \<open>str\<close> patterns: tab, line feed, vertical tab, form feed,
  carriage return, the four separators 0x1C..0x1F, space, and in the Latin-1 range NEL
  (0x85) and the no-break space (0xA0).
\<close>

definition is_space :: "char \<Rightarrow> bool" where
  "is_space c \<longleftrightarrow>
     c \<in> set [CHR 0x09, CHR 0x0A, CHR 0x0B, CHR 0x0C, CHR 0x0D,
              CHR 0x1C, CHR 0x1D, CHR 0x1E, CHR 0x1F, CHR 0x20, CHR 0x85, CHR 0xA0]"

definition non_space :: "char \<Rightarrow> bool" where
  "non_space c \<longleftrightarrow> \<not> is_space c"

text \<open>\<open>line.startswith(p)\<close>.\<close>

definition startswith :: "string \<Rightarrow> string \<Rightarrow> bool" where
  "startswith line p \<longleftrightarrow> take (length p) line = p"

text \<open>
  \<open>line.split()\<close>: the maximal runs of non-whitespace characters, in order; leading,
  trailing and repeated whitespace produce no empty string.
\<close>

function str_split :: "string \<Rightarrow> string list" where
  "str_split s =
     (case dropWhile is_space s of
        [] \<Rightarrow> []
      | c # r \<Rightarrow> takeWhile non_space (c # r) # str_split (dropWhile non_space (c # r)))"
  by pat_completeness auto
termination
proof (relation "measure length")
  show "wf (measure length)" by simp
next
  fix s :: string and c r
  assume eq: "dropWhile is_space s = c # r"
  have "length (dropWhile non_space (c # r)) \<le> length (c # r)"
    by (rule length_dropWhile_le)
  moreover have "c \<in> set (dropWhile is_space s)" using eq by simp
  have "\<not> is_space c" using hd_dropWhile [of is_space s] eq by simp
  then have "dropWhile non_space (c # r) = dropWhile non_space r"
    by (simp add: non_space_def)
  moreover have "length (dropWhile non_space r) \<le> length r"
    by (rule length_dropWhile_le)
  moreover have "length (c # r) \<le> length s"
    using length_dropWhile_le [of is_space s] eq by simp
  ultimately show "(dropWhile non_space (c # r), s) \<in> measure length" by simp
qed

declare str_split.simps [simp del]

section \<open>Regular expressions\<close>

text \<open>
  The two patterns of \<open>parse_routes\<close> are sequences of literal characters and of character
  classes under \<open>+\<close>, some of them captured as a group. \<open>re_match_here\<close> is the backtracking
  matcher of \<open>re\<close> on such a sequence, anchored at the head of the string: a class under
  \<open>+\<close> is greedy, it first takes the longest run and gives characters back one by one while
  the rest of the pattern fails. The result is the list of the captured groups.
  \<open>re_search\<close> is \<open>re.search\<close>: the match at the leftmost position that has one.
\<close>

datatype re_item = Lit char | Plus "char \<Rightarrow> bool" bool

fun first_some :: "('a \<Rightarrow> 'b option) \<Rightarrow> 'a list \<Rightarrow> 'b option" where
  "first_some f [] = None"
| "first_some f (x # xs) = (case f x of Some y \<Rightarrow> Some y | None \<Rightarrow> first_some f xs)"

fun re_match_here :: "re_item list \<Rightarrow> string \<Rightarrow> string list option" where
  "re_match_here [] s = Some []"
| "re_match_here (Lit c # items) s =
     (case s of
        [] \<Rightarrow> None
      | x # xs \<Rightarrow> if x = c then re_match_here items xs else None)"
| "re_match_here (Plus cls captured # items) s =
     first_some
       (\<lambda>n. case re_match_here items (drop n s) of
              None \<Rightarrow> None
            | Some groups \<Rightarrow> Some (if captured then take n s # groups else groups))
       (rev [1 ..< Suc (length (takeWhile cls s))])"

fun re_search :: "re_item list \<Rightarrow> string \<Rightarrow> string list option" where
  "re_search items [] = re_match_here items []"
| "re_search items (c # cs) =
     (case re_match_here items (c # cs) of
        Some groups \<Rightarrow> Some groups
      | None \<Rightarrow> re_search items cs)"

text \<open>\<open>match.group(n)\<close> for \<open>n \<ge> 1\<close>.\<close>

definition group :: "string list \<Rightarrow> nat \<Rightarrow> string" where
  "group groups n = groups ! (n - 1)"

text \<open>\<open>r'default via (\S+)'\<close>\<close>

definition default_via_re :: "re_item list" where
  "default_via_re = map Lit ''default via '' @ [Plus non_space True]"

text \<open>\<open>r'(\S+)\s+via\s+(\S+)'\<close>\<close>

definition via_re :: "re_item list" where
  "via_re =
     [Plus non_space True, Plus is_space False] @ map Lit ''via'' @
     [Plus is_space False, Plus non_space True]"

section \<open>Dictionaries\<close>

text \<open>
  A Python \<open>dict\<close> keeps its keys in insertion order, and that order is the order of the
  CSV rows, so a dictionary is an association list. \<open>d[k] = v\<close> replaces the value of a
  key that is present, at its place, and appends a key that is new.
\<close>

type_synonym ('k, 'v) dict = "('k \<times> 'v) list"

fun dict_setitem :: "('k, 'v) dict \<Rightarrow> 'k \<Rightarrow> 'v \<Rightarrow> ('k, 'v) dict" where
  "dict_setitem [] k v = [(k, v)]"
| "dict_setitem ((k', v') # kvs) k v =
     (if k' = k then (k, v) # kvs else (k', v') # dict_setitem kvs k v)"

text \<open>Iterating a dictionary (\<open>for route in d\<close>, \<open>d.keys()\<close>) yields its keys.\<close>

definition dict_keys :: "('k, 'v) dict \<Rightarrow> 'k list" where
  "dict_keys d = map fst d"

text \<open>\<open>k in d\<close>\<close>

definition dict_contains :: "('k, 'v) dict \<Rightarrow> 'k \<Rightarrow> bool" where
  "dict_contains d k \<longleftrightarrow> k \<in> set (dict_keys d)"

text \<open>\<open>d[k]\<close>; \<open>None\<close> is the \<open>KeyError\<close> of a key that is absent.\<close>

definition dict_getitem :: "('k, 'v) dict \<Rightarrow> 'k \<Rightarrow> 'v option" where
  "dict_getitem d k = map_of d k"

text \<open>
  The comprehension \<open>{route: src[route] for route in src if route not in other}\<close>:
  the keys of \<open>src\<close> in order, each kept key stored with the value \<open>src\<close> has for it.
  \<open>src[route]\<close> cannot raise, as \<open>route\<close> is a key of \<open>src\<close>
  (lemma \<open>dict_getitem_key\<close> below), so the \<open>None\<close> branch is never taken.
\<close>

fun only_in :: "('k, 'v) dict \<Rightarrow> ('k, 'v) dict \<Rightarrow> 'k list \<Rightarrow> ('k, 'v) dict \<Rightarrow> ('k, 'v) dict" where
  "only_in src other [] acc = acc"
| "only_in src other (route # rest) acc =
     (if \<not> dict_contains other route
      then (case dict_getitem src route of
              Some v \<Rightarrow> only_in src other rest (dict_setitem acc route v)
            | None \<Rightarrow> only_in src other rest acc)
      else only_in src other rest acc)"

section \<open>Route Table Parser\<close>

text \<open>
  A route is the tuple \<open>(admin_distance, metric, next_hop)\<close> the parser stores under the
  destination. The two numeric fields are always \<open>None\<close>; the next hop is the address
  after \<open>via\<close>, or the string \<open>direct\<close>.
\<close>

type_synonym route = "nat option \<times> nat option \<times> string"
type_synonym routes = "(string, route) dict"
type_synonym snapshot = "routes \<times> string option"

text \<open>One iteration of the loop of \<open>parse_routes\<close>, on the state \<open>(routes, gateway)\<close>.\<close>

definition parse_line :: "string \<Rightarrow> snapshot \<Rightarrow> snapshot" where
  "parse_line line st =
     (case st of (routes, gateway) \<Rightarrow>
        (case (if startswith line ''default'' then re_search default_via_re line else None) of
           Some m \<Rightarrow> (routes, Some (group m 1))
         | None \<Rightarrow>
             (case re_search via_re line of
                Some m \<Rightarrow>
                  (let destination = group m 1; next_hop = group m 2
                   in (dict_setitem routes destination (None, None, next_hop), gateway))
              | None \<Rightarrow>
                  (let parts = str_split line
                   in if length parts \<ge> 1
                      then (let destination = hd parts
                            in if destination \<noteq> ''default''
                               then (dict_setitem routes destination (None, None, ''direct''), gateway)
                               else (routes, gateway))
                      else (routes, gateway)))))"

fun parse_loop :: "string list \<Rightarrow> snapshot \<Rightarrow> snapshot" where
  "parse_loop [] st = st"
| "parse_loop (line # output) st = parse_loop output (parse_line line st)"

definition parse_routes :: "string list \<Rightarrow> snapshot" where
  "parse_routes output = parse_loop output ([], None)"

section \<open>Snapshot Differ\<close>

definition compare_routes :: "routes \<Rightarrow> routes \<Rightarrow> routes \<times> routes" where
  "compare_routes before after =
     (let added = only_in after before (dict_keys after) [];
          removed = only_in before after (dict_keys before) []
      in (added, removed))"

section \<open>Route Source\<close>

text \<open>
  \<open>str.splitlines()\<close>: the lines of a text without their line breaks. A line break is
  \<open>\n\<close>, \<open>\r\<close>, \<open>\r\n\<close> (one break), \<open>\v\<close>, \<open>\f\<close>, 0x1C, 0x1D, 0x1E or 0x85; a
  text that ends with a line break has no empty last line.
\<close>

definition is_linebreak :: "char \<Rightarrow> bool" where
  "is_linebreak c \<longleftrightarrow>
     c \<in> set [CHR 0x0A, CHR 0x0B, CHR 0x0C, CHR 0x0D, CHR 0x1C, CHR 0x1D, CHR 0x1E, CHR 0x85]"

fun splitlines_from :: "string \<Rightarrow> string \<Rightarrow> string list" where
  "splitlines_from cur [] = (if cur = [] then [] else [cur])"
| "splitlines_from cur (c # cs) =
     (if is_linebreak c
      then (case cs of
              d # ds \<Rightarrow>
                if c = CHR 0x0D \<and> d = CHR 0x0A
                then cur # splitlines_from [] ds
                else cur # splitlines_from [] cs
            | [] \<Rightarrow> cur # splitlines_from [] cs)
      else splitlines_from (cur @ [c]) cs)"

definition splitlines :: "string \<Rightarrow> string list" where
  "splitlines s = splitlines_from [] s"

text \<open>
  The exceptions that reach this program, and what the operating system does with the
  command \<open>ip route\<close>: the executable cannot be started, or the process runs and exits
  with a return code, having written \<open>stdout\<close>.

  \<open>subprocess_run check p\<close> is the contract of \<open>subprocess.run(..., capture_output=True,
  text=True, check=check)\<close>: it raises \<open>OSError\<close> (\<open>FileNotFoundError\<close>,
  \<open>PermissionError\<close>) when the executable cannot be started, it raises
  \<open>CalledProcessError\<close> on a non-zero return code only when \<open>check\<close> is true, and it
  returns the completed process otherwise.
\<close>

datatype py_exception = OSError | CalledProcessError int | KeyboardInterrupt

datatype process = Cannot_start | Exits int string

fun subprocess_run :: "bool \<Rightarrow> process \<Rightarrow> py_exception + (int \<times> string)" where
  "subprocess_run check Cannot_start = Inl OSError"
| "subprocess_run check (Exits returncode stdout) =
     (if check \<and> returncode \<noteq> 0 then Inl (CalledProcessError returncode)
      else Inr (returncode, stdout))"

section \<open>Tracker state\<close>

text \<open>
  The log file is the sequence of records handed to \<open>logging\<close>: the two INFO lines of
  \<open>log_changes\<close>, each with the keys and the values it lists, and the ERROR line of
  \<open>get_current_routes\<close>. The rendering of a record as text is not modelled.

  The CSV file is the sequence of rows handed to \<open>writer.writerow\<close>, each a list of the
  Python values of its cells (a string, a number or \<open>None\<close>); \<open>None\<close> in \<open>csv_file\<close> is a
  path with no file. A row is at least its line terminator, so the file has size 0 exactly
  when it has no row.

  \<open>datetime.now()\<close> reads the wall clock: the \<open>n\<close>-th reading of a run, formatted by
  \<open>strftime\<close>, is \<open>clock n\<close>, and \<open>clock_reads\<close> counts the readings taken so far.
  \<open>rendered\<close> lists the snapshots passed to \<open>create_topology_graph\<close>.
  \<open>previous_routes\<close> and \<open>previous_gateway\<close> are the baseline that \<open>monitor\<close> keeps
  between cycles. Console output is not modelled.
\<close>

datatype log_record =
    Added_routes "string list" "route list"
  | Removed_routes "string list" "route list"
  | Error_running_ip_route int

datatype cell = Str string | Num nat | Null

type_synonym csv_row = "cell list"
type_synonym wall_clock = "nat \<Rightarrow> string"

record tracker_state =
  log_file :: "log_record list"
  csv_file :: "csv_row list option"
  clock_reads :: nat
  rendered :: "snapshot list"
  previous_routes :: routes
  previous_gateway :: "string option"

definition dict_values :: "('k, 'v) dict \<Rightarrow> 'v list" where
  "dict_values d = map snd d"

definition get_current_routes ::
    "process \<Rightarrow> tracker_state \<Rightarrow> py_exception + (string list \<times> tracker_state)" where
  "get_current_routes p t =
     (case subprocess_run False p of
        Inr (returncode, stdout) \<Rightarrow> Inr (splitlines stdout, t)
      | Inl (CalledProcessError e) \<Rightarrow>
          Inr ([], t\<lparr>log_file := log_file t @ [Error_running_ip_route e]\<rparr>)
      | Inl e \<Rightarrow> Inl e)"

section \<open>Change Recorder\<close>

definition log_changes :: "routes \<Rightarrow> routes \<Rightarrow> tracker_state \<Rightarrow> tracker_state" where
  "log_changes added removed t =
     (let t1 = (if added \<noteq> []
                then t\<lparr>log_file := log_file t @ [Added_routes (dict_keys added) (dict_values added)]\<rparr>
                else t);
          t2 = (if removed \<noteq> []
                then t1\<lparr>log_file := log_file t1 @ [Removed_routes (dict_keys removed) (dict_values removed)]\<rparr>
                else t1)
      in t2)"

definition csv_header :: csv_row where
  "csv_header =
     [Str ''Change Type'', Str ''Route'', Str ''Admin Distance'', Str ''Metric'',
      Str ''Next Hop'', Str ''Timestamp'']"

definition number_cell :: "nat option \<Rightarrow> cell" where
  "number_cell v = (case v of None \<Rightarrow> Null | Some n \<Rightarrow> Num n)"

text \<open>
  \<open>for route, (admin_distance, metric, next_hop) in changes.items(): writer.writerow(...)\<close>,
  with the change type and the timestamp the loop was entered with.
\<close>

fun write_rows :: "string \<Rightarrow> string \<Rightarrow> routes \<Rightarrow> csv_row list \<Rightarrow> csv_row list" where
  "write_rows change_type timestamp [] file = file"
| "write_rows change_type timestamp ((route, (admin_distance, metric, next_hop)) # items) file =
     write_rows change_type timestamp items
       (file @ [[Str change_type, Str route, number_cell admin_distance, number_cell metric,
                 Str next_hop, Str timestamp]])"

definition save_to_csv :: "wall_clock \<Rightarrow> routes \<Rightarrow> routes \<Rightarrow> tracker_state \<Rightarrow> tracker_state" where
  "save_to_csv clock added removed t =
     (let file_exists = (case csv_file t of None \<Rightarrow> False | Some rows \<Rightarrow> rows \<noteq> []);
          file = (case csv_file t of None \<Rightarrow> [] | Some rows \<Rightarrow> rows);
          file = (if \<not> file_exists then file @ [csv_header] else file);
          timestamp = clock (clock_reads t);
          file = write_rows ''Added'' timestamp added file;
          file = write_rows ''Removed'' timestamp removed file
      in t\<lparr>csv_file := Some file, clock_reads := Suc (clock_reads t)\<rparr>)"

text \<open>Successive change batches recorded in the same file.\<close>

fun save_batches :: "wall_clock \<Rightarrow> (routes \<times> routes) list \<Rightarrow> tracker_state \<Rightarrow> tracker_state" where
  "save_batches clock [] t = t"
| "save_batches clock ((added, removed) # batches) t =
     save_batches clock batches (save_to_csv clock added removed t)"

definition create_topology_graph :: "routes \<Rightarrow> string option \<Rightarrow> tracker_state \<Rightarrow> tracker_state" where
  "create_topology_graph routes gateway t = t\<lparr>rendered := rendered t @ [(routes, gateway)]\<rparr>"

text \<open>
  The state \<open>__init__\<close> leaves: it reads the clock once for the names of the two files
  and configures \<open>logging\<close>; the CSV file does not exist before the first batch.
\<close>

definition fresh_tracker :: tracker_state where
  "fresh_tracker =
     \<lparr>log_file = [], csv_file = None, clock_reads = 1, rendered = [],
      previous_routes = [], previous_gateway = None\<rparr>"

section \<open>Monitor Loop\<close>

text \<open>
  The body of \<open>while True\<close> after \<open>time.sleep\<close>: \<open>p\<close> is what \<open>ip route\<close> does in this
  cycle. \<open>Inl e\<close> is the exception \<open>e\<close> leaving the body.
\<close>

definition monitor_cycle :: "wall_clock \<Rightarrow> process \<Rightarrow> tracker_state \<Rightarrow> py_exception + tracker_state" where
  "monitor_cycle clock p t =
     (case get_current_routes p t of
        Inl e \<Rightarrow> Inl e
      | Inr (current_output, t) \<Rightarrow>
          (case parse_routes current_output of (current_routes, current_gateway) \<Rightarrow>
             (case compare_routes (previous_routes t) current_routes of (added, removed) \<Rightarrow>
                if added \<noteq> [] \<or> removed \<noteq> []
                then (let t = log_changes added removed t;
                          t = save_to_csv clock added removed t;
                          t = create_topology_graph current_routes current_gateway t
                      in Inr (t\<lparr>previous_routes := current_routes,
                                previous_gateway := current_gateway\<rparr>))
                else Inr t)))"

text \<open>
  The loop runs until an exception ends it, so a run is driven by what happens at each
  cycle: the sleep ends and \<open>ip route\<close> behaves as \<open>p\<close>, or the operator interrupts the
  sleep. \<open>KeyboardInterrupt\<close> is caught by \<open>monitor\<close>; every other exception leaves it.
  \<open>Polling\<close> is the state of a loop that is still running when the events end.
\<close>

datatype event = Wake process | Interrupt

datatype monitor_result =
    Polling tracker_state
  | Stopped tracker_state
  | Raised py_exception tracker_state

fun monitor_loop :: "wall_clock \<Rightarrow> event list \<Rightarrow> tracker_state \<Rightarrow> monitor_result" where
  "monitor_loop clock [] t = Polling t"
| "monitor_loop clock (Interrupt # events) t = Stopped t"
| "monitor_loop clock (Wake p # events) t =
     (case monitor_cycle clock p t of
        Inl KeyboardInterrupt \<Rightarrow> Stopped t
      | Inl e \<Rightarrow> Raised e t
      | Inr t' \<Rightarrow> monitor_loop clock events t')"

definition monitor :: "wall_clock \<Rightarrow> process \<Rightarrow> event list \<Rightarrow> tracker_state \<Rightarrow> monitor_result" where
  "monitor clock initial events t =
     (case get_current_routes initial t of
        Inl e \<Rightarrow> Raised e t
      | Inr (initial_output, t) \<Rightarrow>
          (case parse_routes initial_output of (routes, gateway) \<Rightarrow>
             monitor_loop clock events
               (t\<lparr>previous_routes := routes, previous_gateway := gateway\<rparr>)))"

section \<open>Test mode\<close>

text \<open>\<open>s.strip()\<close> and \<open>s.split(sep)\<close> for a separator of one character.\<close>

definition str_strip :: "string \<Rightarrow> string" where
  "str_strip s = rev (dropWhile is_space (rev (dropWhile is_space s)))"

fun split_from :: "char \<Rightarrow> string \<Rightarrow> string \<Rightarrow> string list" where
  "split_from sep cur [] = [cur]"
| "split_from sep cur (c # cs) =
     (if c = sep then cur # split_from sep [] cs else split_from sep (cur @ [c]) cs)"

definition split_on :: "char \<Rightarrow> string \<Rightarrow> string list" where
  "split_on sep s = split_from sep [] s"

text \<open>The two mock route tables of \<open>run_test\<close>.\<close>

definition before_routes :: "string list" where
  "before_routes =
     split_on (CHR 0x0A) (str_strip (
       [CHR 0x0A] @
       ''default via 192.168.1.1 dev eth0'' @ [CHR 0x0A] @
       ''192.168.1.0/24 dev eth0 proto kernel scope link src 192.168.1.100'' @ [CHR 0x0A] @
       ''172.16.0.0/16 via 192.168.1.1 dev eth0'' @ [CHR 0x0A] @
       ''10.0.0.0/8 via 192.168.1.1 dev eth0'' @ [CHR 0x0A]))"

definition after_routes :: "string list" where
  "after_routes =
     split_on (CHR 0x0A) (str_strip (
       [CHR 0x0A] @
       ''default via 192.168.1.1 dev eth0'' @ [CHR 0x0A] @
       ''192.168.1.0/24 dev eth0 proto kernel scope link src 192.168.1.100'' @ [CHR 0x0A] @
       ''172.16.0.0/16 via 192.168.1.1 dev eth0'' @ [CHR 0x0A] @
       ''10.0.0.0/8 via 192.168.1.2 dev eth0'' @ [CHR 0x0A] @
       ''192.168.2.0/24 via 192.168.1.1 dev eth0'' @ [CHR 0x0A]))"

definition run_test :: "wall_clock \<Rightarrow> tracker_state \<Rightarrow> tracker_state" where
  "run_test clock t =
     (case parse_routes before_routes of (prev_routes, prev_gateway) \<Rightarrow>
        (case parse_routes after_routes of (current_routes, current_gateway) \<Rightarrow>
           (case compare_routes prev_routes current_routes of (added, removed) \<Rightarrow>
              if added \<noteq> [] \<or> removed \<noteq> []
              then (let t = log_changes added removed t;
                        t = save_to_csv clock added removed t
                    in create_topology_graph current_routes current_gateway t)
              else t)))"

section \<open>The second pattern on tokens\<close>

text \<open>
  The second pattern read on the tokens of \<open>line.split()\<close>: \<open>find_via\<close> returns the first
  token that is followed by the token \<open>via\<close> and one more token, with that token;
  \<open>next_via\<close> is its test on the two tokens after a candidate. Lemma \<open>search_via_tokens\<close>
  proves that \<open>re.search\<close> with the pattern computes \<open>find_via\<close>.
\<close>

fun next_via :: "string list \<Rightarrow> string list option" where
  "next_via (v # a # rest) = (if v = ''via'' then Some [a] else None)"
| "next_via _ = None"

fun find_via :: "string list \<Rightarrow> (string \<times> string) option" where
  "find_via (t # v # a # rest) = (if v = ''via'' then Some (t, a) else find_via (v # a # rest))"
| "find_via _ = None"

text \<open>The suffixes of the second pattern: \<open>(\S+)\<close>, \<open>\s+(\S+)\<close>, \<open>via\s+(\S+)\<close>, \<open>\s+via\s+(\S+)\<close>.\<close>

definition re_addr :: "re_item list" where "re_addr = [Plus non_space True]"
definition re_space_addr :: "re_item list" where "re_space_addr = Plus is_space False # re_addr"
definition re_via_addr :: "re_item list" where "re_via_addr = map Lit ''via'' @ re_space_addr"
definition re_space_via_addr :: "re_item list" where "re_space_via_addr = Plus is_space False # re_via_addr"

section \<open>Properties of dictionaries\<close>

lemma map_of_dict_setitem: "map_of (dict_setitem d k v) = (map_of d)(k \<mapsto> v)"
  by (induction d) (auto simp: fun_eq_iff)

lemma dict_contains_map_of: "dict_contains d k \<longleftrightarrow> map_of d k \<noteq> None"
  by (simp add: dict_contains_def dict_keys_def map_of_eq_None_iff)

lemma dict_getitem_key: "dict_contains d k \<Longrightarrow> \<exists>v. dict_getitem d k = Some v"
  by (simp add: dict_contains_map_of dict_getitem_def)

lemma dict_keys_setitem:
  "dict_keys (dict_setitem d k v) = (if dict_contains d k then dict_keys d else dict_keys d @ [k])"
  by (induction d) (force simp: dict_keys_def dict_contains_def)+

lemma distinct_dict_setitem: "distinct (dict_keys d) \<Longrightarrow> distinct (dict_keys (dict_setitem d k v))"
  by (simp add: dict_keys_setitem) (simp add: dict_contains_def)

section \<open>Properties of the Snapshot Differ\<close>

lemma map_of_only_in:
  "map_of (only_in src other ks acc) d =
     (if d \<in> set ks \<and> \<not> dict_contains other d \<and> dict_contains src d
      then map_of src d else map_of acc d)"
proof (induction ks arbitrary: acc)
  case Nil
  show ?case by simp
next
  case (Cons route rest)
  show ?case
  proof (cases "\<not> dict_contains other route \<and> dict_contains src route")
    case True
    then obtain v where v: "map_of src route = Some v"
      by (auto simp: dict_contains_map_of)
    with True show ?thesis
      by (simp add: Cons.IH dict_getitem_def map_of_dict_setitem)
  next
    case False
    then have "only_in src other (route # rest) acc = only_in src other rest acc"
      by (auto simp: dict_contains_map_of dict_getitem_def split: option.splits)
    with False show ?thesis
      by (auto simp: Cons.IH)
  qed
qed

lemma getitem_only_in_keys:
  "dict_getitem (only_in src other (dict_keys src) []) d =
     (if dict_contains src d \<and> \<not> dict_contains other d then dict_getitem src d else None)"
  by (simp add: dict_getitem_def map_of_only_in) (auto simp: dict_contains_def)

lemma contains_only_in_keys:
  "dict_contains (only_in src other (dict_keys src) []) d \<longleftrightarrow>
     dict_contains src d \<and> \<not> dict_contains other d"
  using getitem_only_in_keys [of src other d]
  by (auto simp: dict_contains_map_of dict_getitem_def)

lemma only_in_self: "set ks \<subseteq> set (dict_keys src) \<Longrightarrow> only_in src src ks acc = acc"
  by (induction ks arbitrary: acc) (auto simp: dict_contains_def)

lemma distinct_only_in:
  "distinct (dict_keys acc) \<Longrightarrow> distinct (dict_keys (only_in src other ks acc))"
  by (induction ks arbitrary: acc) (auto simp: distinct_dict_setitem split: option.splits)

text \<open>
  On dictionaries (keys distinct) the two results keep the order of the mapping they are
  taken from: \<open>added\<close> lists the new routes in the order of \<open>after\<close>, \<open>removed\<close> the lost
  ones in the order of \<open>before\<close>.
\<close>

lemma dict_setitem_new: "\<not> dict_contains acc k \<Longrightarrow> dict_setitem acc k v = acc @ [(k, v)]"
  by (induction acc) (auto simp: dict_contains_def dict_keys_def)

lemma only_in_items:
  assumes "distinct (map fst xs)"
    and "\<forall>(k, v) \<in> set xs. dict_getitem src k = Some v"
    and "\<forall>(k, v) \<in> set xs. \<not> dict_contains acc k"
  shows "only_in src other (map fst xs) acc =
           acc @ filter (\<lambda>(k, v). \<not> dict_contains other k) xs"
  using assms
proof (induction xs arbitrary: acc)
  case Nil
  show ?case by simp
next
  case (Cons x xs)
  obtain k v where x: "x = (k, v)" by (cases x)
  show ?case
  proof (cases "dict_contains other k")
    case True
    with Cons x show ?thesis by simp
  next
    case False
    have new: "\<not> dict_contains acc k" using Cons.prems(3) x by simp
    have "\<forall>(k', v') \<in> set xs. \<not> dict_contains (acc @ [(k, v)]) k'"
      using Cons.prems(1,3) x by (force simp: dict_contains_def dict_keys_def)
    with Cons x False new show ?thesis
      by (simp add: dict_setitem_new)
  qed
qed

lemma compare_routes_ordered:
  assumes "distinct (dict_keys before)" and "distinct (dict_keys after)"
  shows "compare_routes before after =
           (filter (\<lambda>(route, v). \<not> dict_contains before route) after,
            filter (\<lambda>(route, v). \<not> dict_contains after route) before)"
proof -
  have "\<And>d :: routes. distinct (dict_keys d) \<Longrightarrow> \<forall>(k, v) \<in> set d. dict_getitem d k = Some v"
    by (auto simp: dict_getitem_def dict_keys_def)
  with assms show ?thesis
    by (simp add: compare_routes_def dict_keys_def only_in_items dict_contains_def)
qed

text \<open>
  Claim C1 (key-only diff law). For all route mappings \<open>A\<close> (before) and \<open>B\<close> (after) and
  every destination \<open>d\<close>: \<open>d\<close> is a key of \<open>added\<close> exactly when it is a key of \<open>B\<close> and
  not of \<open>A\<close>, and then \<open>added[d]\<close> is \<open>B[d]\<close>; \<open>d\<close> is a key of \<open>removed\<close> exactly when
  it is a key of \<open>A\<close> and not of \<open>B\<close>, and then \<open>removed[d]\<close> is \<open>A[d]\<close>.
\<close>

theorem compare_routes_key_only_diff_law:
  "(dict_contains (fst (compare_routes A B)) d \<longleftrightarrow> dict_contains B d \<and> \<not> dict_contains A d)
   \<and> dict_getitem (fst (compare_routes A B)) d =
       (if dict_contains B d \<and> \<not> dict_contains A d then dict_getitem B d else None)
   \<and> (dict_contains (snd (compare_routes A B)) d \<longleftrightarrow> dict_contains A d \<and> \<not> dict_contains B d)
   \<and> dict_getitem (snd (compare_routes A B)) d =
       (if dict_contains A d \<and> \<not> dict_contains B d then dict_getitem A d else None)"
  by (simp add: compare_routes_def contains_only_in_keys getitem_only_in_keys)

text \<open>
  Claim C2 (blind spot). A destination \<open>d\<close> that is a key of both \<open>A\<close> and \<open>B\<close> is a key of
  neither \<open>added\<close> nor \<open>removed\<close>, whatever the two mappings store under it. The witness
  takes a destination whose next hop differs between \<open>A\<close> and \<open>B\<close>.
\<close>

theorem compare_routes_blind_spot:
  assumes "dict_contains A d" and "dict_contains B d"
  shows "\<not> dict_contains (fst (compare_routes A B)) d
         \<and> \<not> dict_contains (snd (compare_routes A B)) d"
  using assms by (simp add: compare_routes_def contains_only_in_keys)

theorem compare_routes_blind_spot_witness:
  "dict_contains ([(''10.0.0.0/8'', (None, None, ''192.168.1.1''))] :: routes) ''10.0.0.0/8''
   \<and> dict_contains ([(''10.0.0.0/8'', (None, None, ''192.168.1.2''))] :: routes) ''10.0.0.0/8''
   \<and> dict_getitem ([(''10.0.0.0/8'', (None, None, ''192.168.1.1''))] :: routes) ''10.0.0.0/8''
       \<noteq> dict_getitem ([(''10.0.0.0/8'', (None, None, ''192.168.1.2''))] :: routes) ''10.0.0.0/8''
   \<and> \<not> dict_contains (fst (compare_routes [(''10.0.0.0/8'', (None, None, ''192.168.1.1''))]
                                          [(''10.0.0.0/8'', (None, None, ''192.168.1.2''))])) ''10.0.0.0/8''
   \<and> \<not> dict_contains (snd (compare_routes [(''10.0.0.0/8'', (None, None, ''192.168.1.1''))]
                                          [(''10.0.0.0/8'', (None, None, ''192.168.1.2''))])) ''10.0.0.0/8''"
proof -
  have a: "dict_contains ([(''10.0.0.0/8'', (None, None, ''192.168.1.1''))] :: routes) ''10.0.0.0/8''"
    by (simp add: dict_contains_def dict_keys_def)
  have b: "dict_contains ([(''10.0.0.0/8'', (None, None, ''192.168.1.2''))] :: routes) ''10.0.0.0/8''"
    by (simp add: dict_contains_def dict_keys_def)
  show ?thesis
    using a b compare_routes_blind_spot [OF a b]
    by (simp add: dict_getitem_def)
qed

text \<open>
  Claim C10. Diffing a route mapping against itself yields an empty \<open>added\<close> and an empty
  \<open>removed\<close>.
\<close>

theorem compare_routes_self: "compare_routes A A = ([], [])"
  by (simp add: compare_routes_def only_in_self)

section \<open>Properties of the Route Table Parser\<close>

lemma first_some_None: "(\<And>x. x \<in> set xs \<Longrightarrow> f x = None) \<Longrightarrow> first_some f xs = None"
  by (induction xs) auto

lemma plus_first:
  "re_match_here (Plus cls captured # items) s =
     (if takeWhile cls s = [] then None
      else case re_match_here items (dropWhile cls s) of
             Some groups \<Rightarrow> Some (if captured then takeWhile cls s # groups else groups)
           | None \<Rightarrow>
               first_some
                 (\<lambda>n. case re_match_here items (drop n s) of
                        None \<Rightarrow> None
                      | Some groups \<Rightarrow> Some (if captured then take n s # groups else groups))
                 (rev [1 ..< length (takeWhile cls s)]))"
proof (cases "takeWhile cls s = []")
  case True
  then show ?thesis by simp
next
  case False
  then have "1 \<le> length (takeWhile cls s)" by (cases "takeWhile cls s") auto
  then have "rev [1 ..< Suc (length (takeWhile cls s))] =
      length (takeWhile cls s) # rev [1 ..< length (takeWhile cls s)]"
    by simp
  moreover have "drop (length (takeWhile cls s)) s = dropWhile cls s"
    by (rule dropWhile_eq_drop [symmetric])
  moreover have "take (length (takeWhile cls s)) s = takeWhile cls s"
    by (rule takeWhile_eq_take [symmetric])
  ultimately show ?thesis using False
    by (simp split: option.splits)
qed

declare re_match_here.simps(3) [simp del]

lemma drop_in_run:
  assumes "n < length (takeWhile cls s)"
  shows "\<exists>c cs. drop n s = c # cs \<and> cls c"
proof -
  have len: "n < length s" using assms length_takeWhile_le [of cls s] by simp
  have "takeWhile cls s ! n = s ! n" using assms by (rule takeWhile_nth)
  moreover have "takeWhile cls s ! n \<in> set (takeWhile cls s)" using assms by simp
  ultimately have "cls (s ! n)" using set_takeWhileD [of "s ! n" cls s] by simp
  moreover have "drop n s = s ! n # drop (Suc n) s" using len by (simp add: Cons_nth_drop_Suc)
  ultimately show ?thesis by blast
qed

lemma plus_greedy:
  assumes rej: "\<And>c cs. cls c \<Longrightarrow> re_match_here items (c # cs) = None"
  shows "re_match_here (Plus cls captured # items) s =
     (if takeWhile cls s = [] then None
      else case re_match_here items (dropWhile cls s) of
             None \<Rightarrow> None
           | Some groups \<Rightarrow> Some (if captured then takeWhile cls s # groups else groups))"
proof -
  have "first_some
          (\<lambda>n. case re_match_here items (drop n s) of
                 None \<Rightarrow> None
               | Some groups \<Rightarrow> Some (if captured then take n s # groups else groups))
          (rev [1 ..< length (takeWhile cls s)]) = None"
  proof (rule first_some_None)
    fix n assume "n \<in> set (rev [1 ..< length (takeWhile cls s)])"
    then have "n < length (takeWhile cls s)" by simp
    from drop_in_run [OF this] obtain c cs where "drop n s = c # cs" and "cls c" by blast
    then show "(case re_match_here items (drop n s) of
                 None \<Rightarrow> None
               | Some groups \<Rightarrow> Some (if captured then take n s # groups else groups)) = None"
      by (simp add: rej)
  qed
  then show ?thesis by (simp add: plus_first split: option.splits)
qed


lemma non_space_iff: "non_space c \<longleftrightarrow> \<not> is_space c"
  by (simp add: non_space_def)

lemma not_space_via [simp]:
  "\<not> is_space CHR ''v''" "\<not> is_space CHR ''i''" "\<not> is_space CHR ''a''"
  by (simp_all add: is_space_def)

lemma via_re_unfold: "via_re = Plus non_space True # re_space_via_addr"
  by (simp add: via_re_def re_space_via_addr_def re_via_addr_def re_space_addr_def re_addr_def)

lemma match_re_addr:
  "re_match_here re_addr s = (if takeWhile non_space s = [] then None else Some [takeWhile non_space s])"
  by (simp add: re_addr_def plus_first)

lemma match_re_space_addr:
  "re_match_here re_space_addr s =
     (if takeWhile is_space s = [] \<or> dropWhile is_space s = [] then None
      else Some [takeWhile non_space (dropWhile is_space s)])"
proof -
  have rej: "\<And>c cs. is_space c \<Longrightarrow> re_match_here re_addr (c # cs) = None"
    by (simp add: match_re_addr non_space_iff)
  have "takeWhile non_space (dropWhile is_space s) = [] \<longleftrightarrow> dropWhile is_space s = []"
    using hd_dropWhile [of is_space s] by (auto simp: takeWhile_eq_Nil_iff non_space_iff)
  then show ?thesis
    by (simp add: re_space_addr_def plus_greedy [of is_space re_addr, OF rej] match_re_addr
        del: dropWhile_eq_Nil_conv)
qed

lemma match_re_via_addr:
  "re_match_here re_via_addr s =
     (case s of
        c1 # c2 # c3 # r \<Rightarrow> if [c1, c2, c3] = ''via'' then re_match_here re_space_addr r else None
      | _ \<Rightarrow> None)"
  by (simp add: re_via_addr_def split: list.splits)

lemma match_re_space_via_addr:
  "re_match_here re_space_via_addr s =
     (if takeWhile is_space s = [] then None else re_match_here re_via_addr (dropWhile is_space s))"
proof -
  have rej: "\<And>c cs. is_space c \<Longrightarrow> re_match_here re_via_addr (c # cs) = None"
    by (auto simp: match_re_via_addr split: list.splits)
  show ?thesis
    by (simp add: re_space_via_addr_def plus_greedy [of is_space re_via_addr, OF rej] split: option.splits)
qed

lemma match_via_re:
  "re_match_here via_re s =
     (if takeWhile non_space s = [] then None
      else case re_match_here re_space_via_addr (dropWhile non_space s) of
             None \<Rightarrow> None
           | Some groups \<Rightarrow> Some (takeWhile non_space s # groups))"
proof -
  have rej: "\<And>c cs. non_space c \<Longrightarrow> re_match_here re_space_via_addr (c # cs) = None"
    by (simp add: match_re_space_via_addr non_space_iff)
  note g = plus_greedy [of non_space re_space_via_addr True s, OF rej]
  show ?thesis
    by (simp add: via_re_unfold g cong: option.case_cong)
qed


lemma str_split_Nil [simp]: "str_split [] = []"
  by (subst str_split.simps) simp

lemma str_split_space: "is_space c \<Longrightarrow> str_split (c # cs) = str_split cs"
  by (subst str_split.simps, subst (2) str_split.simps) simp

lemma str_split_dropWhile: "str_split (dropWhile is_space s) = str_split s"
  by (induction s) (simp_all add: str_split_space)

lemma str_split_token:
  "\<not> is_space c \<Longrightarrow>
   str_split (c # cs) = takeWhile non_space (c # cs) # str_split (dropWhile non_space (c # cs))"
  by (subst str_split.simps) simp

lemma next_via_other: "v \<noteq> ''via'' \<Longrightarrow> next_via (v # ts) = None"
  by (cases ts) auto

lemma after_token:
  "dropWhile non_space s = [] \<or> is_space (hd (dropWhile non_space s))"
  using hd_dropWhile [of non_space s] by (auto simp: non_space_iff)

lemma match_re_space_addr_tokens:
  assumes "is_space d"
  shows "re_match_here re_space_addr (d # ds) =
           (case str_split (d # ds) of [] \<Rightarrow> None | a # rest \<Rightarrow> Some [a])"
proof (cases "dropWhile is_space (d # ds)")
  case Nil
  then have "str_split (d # ds) = []"
    using str_split_dropWhile [of "d # ds"] by simp
  with Nil assms show ?thesis by (simp add: match_re_space_addr)
next
  case (Cons c r)
  then have c: "\<not> is_space c" using hd_dropWhile [of is_space "d # ds"] by simp
  have "str_split (d # ds) = str_split (c # r)"
    using str_split_dropWhile [of "d # ds"] Cons by simp
  with c have "str_split (d # ds) =
      takeWhile non_space (c # r) # str_split (dropWhile non_space (c # r))"
    by (simp add: str_split_token)
  with Cons assms show ?thesis by (simp add: match_re_space_addr)
qed

lemma match_re_via_addr_tokens:
  assumes "r2 = [] \<or> \<not> is_space (hd r2)"
  shows "re_match_here re_via_addr r2 = next_via (str_split r2)"
proof (cases r2)
  case Nil
  then show ?thesis by (simp add: match_re_via_addr)
next
  case (Cons c cs)
  with assms have c: "\<not> is_space c" by simp
  have split: "str_split r2 = takeWhile non_space r2 # str_split (dropWhile non_space r2)"
    using c Cons by (simp add: str_split_token)
  show ?thesis
  proof (cases "\<exists>r3. r2 = ''via'' @ r3")
    case True
    then obtain r3 where r3: "r2 = ''via'' @ r3" by blast
    then have m: "re_match_here re_via_addr r2 = re_match_here re_space_addr r3"
      by (simp add: match_re_via_addr)
    show ?thesis
    proof (cases r3)
      case Nil
      with r3 split m show ?thesis
        by (simp add: match_re_space_addr non_space_iff)
    next
      case d: (Cons d ds)
      show ?thesis
      proof (cases "is_space d")
        case True
        with r3 d have "takeWhile non_space r2 = ''via''" "dropWhile non_space r2 = d # ds"
          by (simp_all add: non_space_iff)
        with split have "str_split r2 = ''via'' # str_split (d # ds)" by simp
        with m d match_re_space_addr_tokens [OF True, of ds] show ?thesis
          by (simp split: list.splits)
      next
        case False
        with r3 d have "takeWhile non_space r2 \<noteq> ''via''"
          by (simp add: non_space_iff)
        with split have "next_via (str_split r2) = None"
          by (simp add: next_via_other)
        moreover from False d have "re_match_here re_space_addr r3 = None"
          by (simp add: match_re_space_addr)
        ultimately show ?thesis using m by simp
      qed
    qed
  next
    case False
    then have "re_match_here re_via_addr r2 = None"
      by (auto simp: match_re_via_addr split: list.splits)
    moreover have "takeWhile non_space r2 \<noteq> ''via''"
    proof
      assume "takeWhile non_space r2 = ''via''"
      then have "r2 = ''via'' @ dropWhile non_space r2"
        using takeWhile_dropWhile_id [of non_space r2] by simp
      with False show False by blast
    qed
    ultimately show ?thesis using split by (simp add: next_via_other)
  qed
qed

lemma match_re_space_via_addr_tokens:
  assumes "r1 = [] \<or> is_space (hd r1)"
  shows "re_match_here re_space_via_addr r1 = next_via (str_split r1)"
proof (cases r1)
  case Nil
  then show ?thesis by (simp add: match_re_space_via_addr)
next
  case (Cons c cs)
  with assms have "takeWhile is_space r1 \<noteq> []" by simp
  then have "re_match_here re_space_via_addr r1 = re_match_here re_via_addr (dropWhile is_space r1)"
    by (simp add: match_re_space_via_addr)
  also have "\<dots> = next_via (str_split (dropWhile is_space r1))"
    using hd_dropWhile [of is_space r1] by (intro match_re_via_addr_tokens) auto
  finally show ?thesis by (simp add: str_split_dropWhile)
qed


lemma search_via_Nil: "re_search via_re [] = None"
  by (simp add: match_via_re)

lemma search_via_space: "is_space c \<Longrightarrow> re_search via_re (c # cs) = re_search via_re cs"
  by (simp add: match_via_re non_space_iff)

lemma search_via_dropWhile: "re_search via_re (dropWhile is_space s) = re_search via_re s"
  by (induction s) (simp_all add: search_via_space del: re_search.simps)

lemma token_run:
  assumes "\<forall>c \<in> set u. \<not> is_space c" and "r1 = [] \<or> is_space (hd r1)"
  shows "takeWhile non_space (u @ r1) = u" and "dropWhile non_space (u @ r1) = r1"
proof -
  have "takeWhile non_space r1 = []" using assms(2) by (auto simp: takeWhile_eq_Nil_iff non_space_iff)
  moreover have "dropWhile non_space r1 = r1"
    using assms(2) by (auto simp: dropWhile_eq_self_iff non_space_iff)
  ultimately show "takeWhile non_space (u @ r1) = u" and "dropWhile non_space (u @ r1) = r1"
    using assms(1) by (simp_all add: non_space_iff)
qed

lemma search_via_skip_token:
  assumes "\<forall>c \<in> set u. \<not> is_space c" and "r1 = [] \<or> is_space (hd r1)"
    and "re_match_here re_space_via_addr r1 = None"
  shows "re_search via_re (u @ r1) = re_search via_re r1"
  using assms(1)
proof (induction u)
  case Nil
  show ?case by simp
next
  case (Cons x u)
  then have run: "\<forall>c \<in> set (x # u). \<not> is_space c" by simp
  have "re_match_here via_re ((x # u) @ r1) = None"
    by (simp only: match_via_re token_run [OF run assms(2)] assms(3)) simp
  then have "re_search via_re ((x # u) @ r1) = re_search via_re (u @ r1)"
    by simp
  with Cons show ?case by simp
qed

lemma find_via_skip: "next_via ts = None \<Longrightarrow> find_via (t # ts) = find_via ts"
proof (cases ts)
  case Nil
  then show ?thesis by simp
next
  case (Cons v ts')
  assume "next_via ts = None"
  with Cons show ?thesis by (cases ts') (auto split: if_splits)
qed

lemma find_via_hit: "next_via ts = Some groups \<Longrightarrow> \<exists>a rest. ts = ''via'' # a # rest \<and> groups = [a]"
  by (cases ts rule: next_via.cases) (auto split: if_splits)

lemma search_via_tokens:
  "re_search via_re s =
     (case find_via (str_split s) of None \<Rightarrow> None | Some (t, a) \<Rightarrow> Some [t, a])"
proof (induction s rule: str_split.induct)
  case (1 s)
  show ?case
  proof (cases "dropWhile is_space s")
    case Nil
    have "re_search via_re s = re_search via_re (dropWhile is_space s)"
      by (rule search_via_dropWhile [symmetric])
    then have "re_search via_re s = None"
      unfolding Nil by (simp only: search_via_Nil)
    moreover have "str_split s = str_split (dropWhile is_space s)"
      by (rule str_split_dropWhile [symmetric])
    then have "str_split s = []"
      unfolding Nil by (simp only: str_split_Nil)
    ultimately show ?thesis by simp
  next
    case (Cons c r)
    define u where "u = takeWhile non_space (c # r)"
    define r1 where "r1 = dropWhile non_space (c # r)"
    have c: "\<not> is_space c" using hd_dropWhile [of is_space s] Cons by simp
    have u: "\<forall>c \<in> set u. \<not> is_space c"
      unfolding u_def using set_takeWhileD [of _ non_space "c # r"] by (auto simp: non_space_iff)
    have r1: "r1 = [] \<or> is_space (hd r1)" unfolding r1_def by (rule after_token)
    have cr: "c # r = u @ r1" by (simp add: u_def r1_def)
    have u_ne: "u \<noteq> []" using c by (simp add: u_def non_space_iff)
    have split: "str_split s = u # str_split r1"
      using str_split_dropWhile [of s] Cons c by (simp add: str_split_token u_def r1_def)
    have search: "re_search via_re s = re_search via_re (c # r)"
      using search_via_dropWhile [of s] Cons by simp
    have here: "re_match_here via_re (c # r) =
        (case next_via (str_split r1) of None \<Rightarrow> None | Some groups \<Rightarrow> Some (u # groups))"
    proof -
      have "re_match_here via_re (c # r) =
          (if u = [] then None
           else case re_match_here re_space_via_addr r1 of
                  None \<Rightarrow> None
                | Some groups \<Rightarrow> Some (u # groups))"
        unfolding u_def r1_def by (rule match_via_re)
      then show ?thesis using u_ne by (simp add: match_re_space_via_addr_tokens [OF r1])
    qed
    have IH: "re_search via_re r1 =
        (case find_via (str_split r1) of None \<Rightarrow> None | Some (t, a) \<Rightarrow> Some [t, a])"
      using "1.IH" [OF Cons] by (simp add: r1_def)
    show ?thesis
    proof (cases "next_via (str_split r1)")
      case None
      then have "re_match_here re_space_via_addr r1 = None" by (simp add: match_re_space_via_addr_tokens [OF r1])
      from search_via_skip_token [OF u r1 this]
      have "re_search via_re s = re_search via_re r1" using search cr by simp
      with IH find_via_skip [OF None, of u] split show ?thesis by simp
    next
      case (Some groups)
      from find_via_hit [OF this] obtain a rest
        where ts: "str_split r1 = ''via'' # a # rest" and groups: "groups = [a]" by blast
      from here Some groups have "re_search via_re (c # r) = Some [u, a]" by simp
      with search split ts show ?thesis by simp
    qed
  qed
qed


lemma find_via_leftmost:
  assumes "''via'' \<notin> set (tl (pre @ [t]))"
  shows "find_via (pre @ t # ''via'' # a # post) = Some (t, a)"
  using assms
proof (induction pre)
  case Nil
  show ?case by simp
next
  case (Cons p pre)
  show ?case
  proof (cases pre)
    case Nil
    with Cons.prems show ?thesis by simp
  next
    case inner: (Cons q pre')
    obtain x xs where rest: "pre' @ t # ''via'' # a # post = x # xs"
      by (cases "pre' @ t # ''via'' # a # post") auto
    from Cons.prems inner have "q \<noteq> ''via''" and "''via'' \<notin> set (tl (pre @ [t]))"
      by auto
    with Cons.IH inner rest show ?thesis by simp
  qed
qed

text \<open>
  What the second pattern registers, for every line that does not begin with \<open>default\<close>:
  when the tokens of the line are \<open>pre @ [t, via, a] @ post\<close> and no token of
  \<open>pre @ [t]\<close> after the first is \<open>via\<close> (this \<open>via\<close> is the leftmost one that has a token
  before it), the key stored is \<open>t\<close>, the token immediately before that \<open>via\<close>, with the
  next hop \<open>a\<close>. With \<open>pre\<close> empty the key is the first token of the line.
\<close>

lemma via_line_destination:
  assumes "\<not> startswith line ''default''"
    and "str_split line = pre @ [t, ''via'', a] @ post"
    and "''via'' \<notin> set (tl (pre @ [t]))"
  shows "parse_line line (routes, gateway) = (dict_setitem routes t (None, None, a), gateway)
         \<and> dict_getitem (fst (parse_line line (routes, gateway))) t = Some (None, None, a)"
proof -
  have "find_via (str_split line) = Some (t, a)"
    using find_via_leftmost [OF assms(3), of a post] assms(2) by simp
  then have "re_search via_re line = Some [t, a]"
    by (simp add: search_via_tokens)
  with assms(1) show ?thesis
    by (simp add: parse_line_def group_def dict_getitem_def map_of_dict_setitem)
qed

lemma via_line_destination_examples:
  "\<not> startswith ''10.0.0.0/8 dev eth0 via 192.168.1.1'' ''default''
   \<and> str_split ''10.0.0.0/8 dev eth0 via 192.168.1.1'' =
       [''10.0.0.0/8'', ''dev''] @ [''eth0'', ''via'', ''192.168.1.1''] @ []
   \<and> ''via'' \<notin> set (tl ([''10.0.0.0/8'', ''dev''] @ [''eth0'']))
   \<and> parse_line ''10.0.0.0/8 dev eth0 via 192.168.1.1'' ([], None) =
       (dict_setitem [] ''eth0'' (None, None, ''192.168.1.1''), None)
   \<and> dict_getitem (fst (parse_line ''10.0.0.0/8 dev eth0 via 192.168.1.1'' ([], None))) ''eth0'' =
       Some (None, None, ''192.168.1.1'')
   \<and> \<not> startswith ''10.0.0.0/8 via 192.168.1.1 dev eth0'' ''default''
   \<and> str_split ''10.0.0.0/8 via 192.168.1.1 dev eth0'' =
       [] @ [''10.0.0.0/8'', ''via'', ''192.168.1.1''] @ [''dev'', ''eth0'']
   \<and> ''via'' \<notin> set (tl ([] @ [''10.0.0.0/8'']))
   \<and> parse_line ''10.0.0.0/8 via 192.168.1.1 dev eth0'' ([], None) =
       (dict_setitem [] ''10.0.0.0/8'' (None, None, ''192.168.1.1''), None)
   \<and> dict_getitem (fst (parse_line ''10.0.0.0/8 via 192.168.1.1 dev eth0'' ([], None))) ''10.0.0.0/8'' =
       Some (None, None, ''192.168.1.1'')"
proof -
  have a1: "\<not> startswith ''10.0.0.0/8 dev eth0 via 192.168.1.1'' ''default''"
    by (simp add: startswith_def)
  have a2: "str_split ''10.0.0.0/8 dev eth0 via 192.168.1.1'' =
       [''10.0.0.0/8'', ''dev''] @ [''eth0'', ''via'', ''192.168.1.1''] @ []"
    by code_simp
  have a3: "''via'' \<notin> set (tl ([''10.0.0.0/8'', ''dev''] @ [''eth0'']))"
    by simp
  have b1: "\<not> startswith ''10.0.0.0/8 via 192.168.1.1 dev eth0'' ''default''"
    by (simp add: startswith_def)
  have b2: "str_split ''10.0.0.0/8 via 192.168.1.1 dev eth0'' =
       [] @ [''10.0.0.0/8'', ''via'', ''192.168.1.1''] @ [''dev'', ''eth0'']"
    by code_simp
  have b3: "''via'' \<notin> set (tl ([] @ [''10.0.0.0/8'']))"
    by simp
  show ?thesis
    using a1 a2 a3 b1 b2 b3
      via_line_destination [OF a1 a2 a3, of "[]" None]
      via_line_destination [OF b1 b2 b3, of "[]" None]
    by blast
qed

text \<open>
  Claim C3, evaluated on the line the claim names and on a line with a nexthop id. Neither
  line begins with \<open>default\<close>; in both the first token is \<open>10.0.0.0/8\<close> and a later
  token \<open>via\<close> is followed by an address. The pattern is searched unanchored, so the
  value assigned to \<open>destination\<close> is the token before \<open>via\<close>: the keys registered are
  \<open>eth0\<close> and \<open>12\<close>, and the first token \<open>10.0.0.0/8\<close> is no key of the mapping. The
  sibling branch for direct routes takes \<open>parts[0]\<close>, the first token, as destination.
\<close>

theorem via_line_destination_not_first_token:
  "\<not> startswith ''10.0.0.0/8 dev eth0 via 192.168.1.1'' ''default''
   \<and> str_split ''10.0.0.0/8 dev eth0 via 192.168.1.1'' =
       [''10.0.0.0/8'', ''dev'', ''eth0'', ''via'', ''192.168.1.1'']
   \<and> parse_routes [''10.0.0.0/8 dev eth0 via 192.168.1.1''] =
       ([(''eth0'', (None, None, ''192.168.1.1''))], None)
   \<and> \<not> dict_contains (fst (parse_routes [''10.0.0.0/8 dev eth0 via 192.168.1.1''])) ''10.0.0.0/8''
   \<and> \<not> startswith ''10.0.0.0/8 nhid 12 via 192.168.1.1 dev eth0'' ''default''
   \<and> str_split ''10.0.0.0/8 nhid 12 via 192.168.1.1 dev eth0'' =
       [''10.0.0.0/8'', ''nhid'', ''12'', ''via'', ''192.168.1.1'', ''dev'', ''eth0'']
   \<and> parse_routes [''10.0.0.0/8 nhid 12 via 192.168.1.1 dev eth0''] =
       ([(''12'', (None, None, ''192.168.1.1''))], None)
   \<and> \<not> dict_contains (fst (parse_routes [''10.0.0.0/8 nhid 12 via 192.168.1.1 dev eth0''])) ''10.0.0.0/8''"
  by code_simp

text \<open>The gateway, and the keys of the mapping.\<close>

lemma parse_line_gateway:
  "snd (parse_line line (routes, gateway)) =
     (if startswith line ''default''
      then (case re_search default_via_re line of Some m \<Rightarrow> Some (group m 1) | None \<Rightarrow> gateway)
      else gateway)"
  by (simp add: parse_line_def Let_def split: option.splits)

lemma parse_line_default_via:
  assumes "startswith line ''default''" and "re_search default_via_re line = Some m"
  shows "parse_line line (routes, gateway) = (routes, Some (group m 1))"
  using assms by (simp add: parse_line_def)

lemma parse_line_distinct:
  "distinct (dict_keys (fst st)) \<Longrightarrow> distinct (dict_keys (fst (parse_line line st)))"
  by (cases st) (simp add: parse_line_def Let_def distinct_dict_setitem split: option.splits)

lemma parse_loop_distinct:
  "distinct (dict_keys (fst st)) \<Longrightarrow> distinct (dict_keys (fst (parse_loop ls st)))"
  by (induction ls arbitrary: st) (simp_all add: parse_line_distinct)

lemma parse_routes_distinct: "distinct (dict_keys (fst (parse_routes ls)))"
  using parse_loop_distinct [of "([], None)" ls] by (simp add: parse_routes_def dict_keys_def)

section \<open>Properties of the Route Table Parser on concrete tables\<close>

lemma before_routes_lines:
  "before_routes =
     [''default via 192.168.1.1 dev eth0'',
      ''192.168.1.0/24 dev eth0 proto kernel scope link src 192.168.1.100'',
      ''172.16.0.0/16 via 192.168.1.1 dev eth0'',
      ''10.0.0.0/8 via 192.168.1.1 dev eth0'']"
  by code_simp

lemma after_routes_lines:
  "after_routes =
     [''default via 192.168.1.1 dev eth0'',
      ''192.168.1.0/24 dev eth0 proto kernel scope link src 192.168.1.100'',
      ''172.16.0.0/16 via 192.168.1.1 dev eth0'',
      ''10.0.0.0/8 via 192.168.1.2 dev eth0'',
      ''192.168.2.0/24 via 192.168.1.1 dev eth0'']"
  by code_simp

lemma parse_before_routes:
  "parse_routes before_routes =
     ([(''192.168.1.0/24'', None, None, ''direct''),
       (''172.16.0.0/16'', None, None, ''192.168.1.1''),
       (''10.0.0.0/8'', None, None, ''192.168.1.1'')], Some ''192.168.1.1'')"
  by code_simp

lemma parse_after_routes:
  "parse_routes after_routes =
     ([(''192.168.1.0/24'', None, None, ''direct''),
       (''172.16.0.0/16'', None, None, ''192.168.1.1''),
       (''10.0.0.0/8'', None, None, ''192.168.1.2''),
       (''192.168.2.0/24'', None, None, ''192.168.1.1'')], Some ''192.168.1.1'')"
  by code_simp

text \<open>
  Claim C5. Parsing the two mock route tables of the test mode and diffing the two
  mappings yields \<open>added = {192.168.2.0/24: (None, None, 192.168.1.1)}\<close> and an empty
  \<open>removed\<close>: the changed next hop of \<open>10.0.0.0/8\<close> is not reported.
\<close>

theorem test_mode_diff:
  "compare_routes (fst (parse_routes before_routes)) (fst (parse_routes after_routes)) =
     ([(''192.168.2.0/24'', (None, None, ''192.168.1.1''))], [])"
  by code_simp

text \<open>
  Claim C4, evaluated on the line the claim names. The line begins with \<open>default\<close> and
  \<open>default via (\S+)\<close> does not match it, so no gateway is recorded; the loop does not
  \<open>continue\<close>, the line reaches the second pattern, which matches \<open>eth0 via 192.168.1.1\<close>,
  and a route with the destination \<open>eth0\<close> is registered. With two spaces after \<open>default\<close>
  the destination registered is \<open>default\<close> itself.
\<close>

theorem default_line_registers_route:
  "parse_routes [''default dev eth0 via 192.168.1.1''] =
     ([(''eth0'', (None, None, ''192.168.1.1''))], None)
   \<and> parse_routes [''default  via 192.168.1.1''] =
     ([(''default'', (None, None, ''192.168.1.1''))], None)"
  by code_simp

section \<open>Properties of the Change Recorder\<close>

lemma write_rows_append:
  "write_rows change_type timestamp items f =
     f @ map (\<lambda>(route, admin_distance, metric, next_hop).
                [Str change_type, Str route, number_cell admin_distance, number_cell metric,
                 Str next_hop, Str timestamp]) items"
  by (induction items arbitrary: f) auto

lemma csv_file_save_to_csv:
  "csv_file (save_to_csv clock added removed t) =
     Some ((case csv_file t of
              None \<Rightarrow> [csv_header]
            | Some rows \<Rightarrow> if rows = [] then [csv_header] else rows)
           @ map (\<lambda>(route, admin_distance, metric, next_hop).
                    [Str ''Added'', Str route, number_cell admin_distance, number_cell metric,
                     Str next_hop, Str (clock (clock_reads t))]) added
           @ map (\<lambda>(route, admin_distance, metric, next_hop).
                    [Str ''Removed'', Str route, number_cell admin_distance, number_cell metric,
                     Str next_hop, Str (clock (clock_reads t))]) removed)"
  by (simp add: save_to_csv_def Let_def write_rows_append split: option.splits)

text \<open>
  Claim C8. A batch appends, after the rows the file has (and the header, when the file
  was absent or empty), one row per entry of \<open>added\<close> in order and then one row per entry
  of \<open>removed\<close> in order, each of the six cells (change type, destination, admin distance,
  metric, next hop, timestamp). Every row of the batch carries the same reading of the
  clock, \<open>clock (clock_reads t)\<close>, and the batch takes exactly one reading. The statement
  holds for every batch, so for every non-empty one.
\<close>

theorem save_to_csv_rows:
  "csv_file (save_to_csv clock added removed t) =
     Some ((case csv_file t of
              None \<Rightarrow> [csv_header]
            | Some rows \<Rightarrow> if rows = [] then [csv_header] else rows)
           @ map (\<lambda>(route, admin_distance, metric, next_hop).
                    [Str ''Added'', Str route, number_cell admin_distance, number_cell metric,
                     Str next_hop, Str (clock (clock_reads t))]) added
           @ map (\<lambda>(route, admin_distance, metric, next_hop).
                    [Str ''Removed'', Str route, number_cell admin_distance, number_cell metric,
                     Str next_hop, Str (clock (clock_reads t))]) removed)
   \<and> clock_reads (save_to_csv clock added removed t) = Suc (clock_reads t)"
  by (simp add: csv_file_save_to_csv) (simp add: save_to_csv_def Let_def)

lemma header_not_data_row:
  "change_type \<noteq> ''Change Type'' \<Longrightarrow>
   csv_header \<notin> set (map (\<lambda>(route, admin_distance, metric, next_hop).
                   [Str change_type, Str route, number_cell admin_distance, number_cell metric,
                    Str next_hop, Str timestamp]) items)"
  by (auto simp: csv_header_def)

lemma save_to_csv_first:
  assumes "csv_file t = None \<or> csv_file t = Some []"
  shows "\<exists>rows. csv_file (save_to_csv clock added removed t) = Some (csv_header # rows)
           \<and> csv_header \<notin> set rows"
  using assms header_not_data_row [of "''Added''"] header_not_data_row [of "''Removed''"]
  by (auto simp: csv_file_save_to_csv)

lemma save_to_csv_later:
  assumes "csv_file t = Some (csv_header # rows)" and "csv_header \<notin> set rows"
  shows "\<exists>rows'. csv_file (save_to_csv clock added removed t) = Some (csv_header # rows')
           \<and> csv_header \<notin> set rows'"
  using assms header_not_data_row [of "''Added''"] header_not_data_row [of "''Removed''"]
  by (auto simp: csv_file_save_to_csv)

lemma save_batches_later:
  assumes "csv_file t = Some (csv_header # rows)" and "csv_header \<notin> set rows"
  shows "\<exists>rows'. csv_file (save_batches clock batches t) = Some (csv_header # rows')
           \<and> csv_header \<notin> set rows'"
  using assms
proof (induction batches arbitrary: t rows)
  case Nil
  then show ?case by simp
next
  case (Cons batch batches)
  obtain added removed where batch: "batch = (added, removed)" by (cases batch)
  from save_to_csv_later [OF Cons.prems, of clock added removed]
  obtain rows' where "csv_file (save_to_csv clock added removed t) = Some (csv_header # rows')"
    and "csv_header \<notin> set rows'" by blast
  from Cons.IH [OF this] show ?case by (simp add: batch)
qed

text \<open>
  Claim C9 (CSV header once). Starting from a file that is absent or empty, after any
  positive number of batches the file is the header row followed by rows none of which is
  the header: the first batch wrote it and no later batch wrote it again.
\<close>

theorem csv_header_once:
  assumes "csv_file t = None \<or> csv_file t = Some []" and "batches \<noteq> []"
  shows "\<exists>rows. csv_file (save_batches clock batches t) = Some (csv_header # rows)
           \<and> csv_header \<notin> set rows"
proof -
  from assms(2) obtain added removed rest where b: "batches = (added, removed) # rest"
    by (cases batches) auto
  from save_to_csv_first [OF assms(1), of clock added removed]
  obtain rows where "csv_file (save_to_csv clock added removed t) = Some (csv_header # rows)"
    and "csv_header \<notin> set rows" by blast
  from save_batches_later [OF this, of clock rest] show ?thesis by (simp add: b)
qed

theorem csv_header_once_witness:
  "(csv_file fresh_tracker = None \<or> csv_file fresh_tracker = Some [])
   \<and> [([(''192.168.2.0/24'', (None, None, ''192.168.1.1''))], []),
       ([], [(''192.168.2.0/24'', (None, None, ''192.168.1.1''))])] \<noteq> ([] :: (routes \<times> routes) list)
   \<and> (\<exists>rows. csv_file (save_batches (\<lambda>n. if n = 1 then ''2024-05-01 10:00:00'' else ''2024-05-01 10:00:10'')
                  [([(''192.168.2.0/24'', (None, None, ''192.168.1.1''))], []),
                   ([], [(''192.168.2.0/24'', (None, None, ''192.168.1.1''))])] fresh_tracker)
                = Some (csv_header # rows) \<and> csv_header \<notin> set rows)
   \<and> csv_file (save_batches (\<lambda>n. if n = 1 then ''2024-05-01 10:00:00'' else ''2024-05-01 10:00:10'')
                  [([(''192.168.2.0/24'', (None, None, ''192.168.1.1''))], []),
                   ([], [(''192.168.2.0/24'', (None, None, ''192.168.1.1''))])] fresh_tracker)
       = Some [csv_header,
               [Str ''Added'', Str ''192.168.2.0/24'', Null, Null, Str ''192.168.1.1'', Str ''2024-05-01 10:00:00''],
               [Str ''Removed'', Str ''192.168.2.0/24'', Null, Null, Str ''192.168.1.1'', Str ''2024-05-01 10:00:10'']]"
proof -
  have a: "csv_file fresh_tracker = None \<or> csv_file fresh_tracker = Some []"
    by (simp add: fresh_tracker_def)
  have b: "[([(''192.168.2.0/24'', (None, None, ''192.168.1.1''))], []),
       ([], [(''192.168.2.0/24'', (None, None, ''192.168.1.1''))])] \<noteq> ([] :: (routes \<times> routes) list)"
    by simp
  show ?thesis
    using a csv_header_once [OF a b, of "\<lambda>n. if n = 1 then ''2024-05-01 10:00:00'' else ''2024-05-01 10:00:10''"]
    by (simp add: csv_file_save_to_csv save_to_csv_def Let_def write_rows_append fresh_tracker_def number_cell_def)
qed

text \<open>The test mode on a fresh tracker: one log record and, after the header, one row.\<close>

lemma run_test_fresh:
  "csv_file (run_test clock fresh_tracker) =
     Some [csv_header,
           [Str ''Added'', Str ''192.168.2.0/24'', Null, Null, Str ''192.168.1.1'', Str (clock 1)]]
   \<and> log_file (run_test clock fresh_tracker) =
       [Added_routes [''192.168.2.0/24''] [(None, None, ''192.168.1.1'')]]"
  by (simp add: run_test_def parse_before_routes parse_after_routes compare_routes_def
      dict_keys_def dict_contains_def dict_getitem_def log_changes_def dict_values_def
      csv_file_save_to_csv save_to_csv_def create_topology_graph_def fresh_tracker_def
      number_cell_def Let_def)

section \<open>Properties of the Monitor Loop and the Route Source\<close>

text \<open>
  Claim C6 (no-op stability). In a cycle in which \<open>ip route\<close> ran (with any return code
  and output) and the diff of the baseline against the parsed output has an empty
  \<open>added\<close> and an empty \<open>removed\<close>, the cycle ends normally and leaves the baseline routes,
  the baseline gateway, the log file and the CSV file as they were.
\<close>

theorem monitor_cycle_no_change:
  assumes "compare_routes (previous_routes t) (fst (parse_routes (splitlines stdout))) = ([], [])"
  shows "\<exists>t'. monitor_cycle clock (Exits returncode stdout) t = Inr t'
           \<and> previous_routes t' = previous_routes t
           \<and> previous_gateway t' = previous_gateway t
           \<and> log_file t' = log_file t
           \<and> csv_file t' = csv_file t"
proof -
  obtain current_routes current_gateway
    where parsed: "parse_routes (splitlines stdout) = (current_routes, current_gateway)"
    by (cases "parse_routes (splitlines stdout)")
  with assms have "compare_routes (previous_routes t) current_routes = ([], [])"
    by simp
  with parsed have "monitor_cycle clock (Exits returncode stdout) t = Inr t"
    by (simp add: monitor_cycle_def get_current_routes_def)
  then show ?thesis by simp
qed

theorem monitor_cycle_no_change_witness:
  "compare_routes
     (previous_routes (fresh_tracker\<lparr>previous_routes := [(''10.0.0.0/8'', (None, None, ''192.168.1.1''))],
                                    previous_gateway := Some ''192.168.1.1''\<rparr>))
     (fst (parse_routes (splitlines (''default via 192.168.1.254 dev eth0'' @ [CHR 0x0A] @
                                     ''10.0.0.0/8 via 192.168.1.2 dev eth0'' @ [CHR 0x0A])))) = ([], [])
   \<and> (\<exists>t'. monitor_cycle (\<lambda>n. ''2024-05-01 10:00:00'')
              (Exits 0 (''default via 192.168.1.254 dev eth0'' @ [CHR 0x0A] @
                        ''10.0.0.0/8 via 192.168.1.2 dev eth0'' @ [CHR 0x0A]))
              (fresh_tracker\<lparr>previous_routes := [(''10.0.0.0/8'', (None, None, ''192.168.1.1''))],
                              previous_gateway := Some ''192.168.1.1''\<rparr>) = Inr t'
          \<and> previous_routes t' = [(''10.0.0.0/8'', (None, None, ''192.168.1.1''))]
          \<and> previous_gateway t' = Some ''192.168.1.1''
          \<and> log_file t' = []
          \<and> csv_file t' = None)"
proof -
  have a: "compare_routes
     (previous_routes (fresh_tracker\<lparr>previous_routes := [(''10.0.0.0/8'', (None, None, ''192.168.1.1''))],
                                    previous_gateway := Some ''192.168.1.1''\<rparr>))
     (fst (parse_routes (splitlines (''default via 192.168.1.254 dev eth0'' @ [CHR 0x0A] @
                                     ''10.0.0.0/8 via 192.168.1.2 dev eth0'' @ [CHR 0x0A])))) = ([], [])"
    by code_simp
  show ?thesis
    using a monitor_cycle_no_change [OF a, of "\<lambda>n. ''2024-05-01 10:00:00''" 0]
    by (simp add: fresh_tracker_def)
qed

text \<open>
  Claim C7, evaluated. \<open>subprocess.run\<close> is called without \<open>check=True\<close>, so a non-zero
  return code raises nothing: \<open>get_current_routes\<close> returns the lines of whatever the
  process wrote and logs nothing. When the executable cannot be started the exception is
  an \<open>OSError\<close>, which \<open>except subprocess.CalledProcessError\<close> does not catch: it leaves
  \<open>get_current_routes\<close> and, as \<open>monitor\<close> catches \<open>KeyboardInterrupt\<close> only, the loop.
\<close>

theorem source_failure_not_recovered:
  "get_current_routes (Exits 1 []) t = Inr ([], t)
   \<and> get_current_routes (Exits 2 (''10.0.0.0/8 via 192.168.1.1 dev eth0'' @ [CHR 0x0A])) t =
       Inr ([''10.0.0.0/8 via 192.168.1.1 dev eth0''], t)
   \<and> get_current_routes Cannot_start t = Inl OSError
   \<and> monitor_loop clock (Wake Cannot_start # events) t = Raised OSError t
   \<and> monitor clock Cannot_start events t = Raised OSError t"
  by (simp add: get_current_routes_def monitor_def monitor_cycle_def splitlines_def
      is_linebreak_def Let_def)

end
